theory Spec2Isabelle
  imports Main
begin

section \<open>Data model of \<open>actstream/actions.py\<close>\<close>

text \<open>
  A model instance is used by \<open>actions.py\<close> only through its model class (from which
  \<open>ContentType.objects.get_for_model\<close> derives the content type) and its primary key
  \<open>pk\<close>. A user is such an instance too: \<open>follow\<close> stores it in the \<open>user\<close> column of
  the \<open>Follow\<close> table and passes it as the sender (actor) of the action signal.
\<close>

record entity =
  model :: string
  pk :: nat

text \<open>
  The values that travel in \<open>**kwargs\<close>. \<open>PSignal\<close> is the signal object that the
  dispatcher passes under the key \<open>signal\<close>; \<open>PDict\<close> is a Python dictionary with string
  keys, in insertion order.
\<close>

datatype pyval =
    PNone
  | PBool bool
  | PInt int
  | PStr string
  | PObj entity
  | PSignal
  | PDict "(string \<times> pyval) list"

type_synonym kwargs = "(string \<times> pyval) list"

text \<open>
  A verb is a plain string or the lazy translation proxy \<open>_('...')\<close> of
  \<open>ugettext_lazy\<close>, which is translated when \<open>unicode\<close> is applied to it.
\<close>

datatype verb_text = Plain string | Lazy string

datatype error =
    UnregisteredEntityError
  | KeyError
  | DoesNotExist
  | MultipleObjectsReturned
  | IntegrityError

text \<open>A row of the \<open>Follow\<close> table; \<open>follow_id\<close> is its primary key.\<close>

record follow_row =
  follow_id :: nat
  user :: entity
  object_id :: nat
  content_type :: string
  actor_only :: bool
  send_email :: bool

text \<open>An \<open>Action\<close> instance, with the attributes that \<open>action_handler\<close> sets.\<close>

record action_row =
  actor_content_type :: string
  actor_object_id :: nat
  verb :: string
  is_public :: bool
  description :: pyval
  timestamp :: pyval
  target_object_id :: "nat option"
  target_content_type :: "string option"
  action_object_object_id :: "nat option"
  action_object_content_type :: "string option"
  data :: "kwargs option"

text \<open>One \<open>action.send(sender, verb=..., **named)\<close>.\<close>

record sent_signal =
  sig_sender :: entity
  sig_verb :: verb_text
  sig_named :: kwargs

text \<open>A message tuple of \<open>send_mass_mail\<close>: subject, message, from address, recipients.\<close>

type_synonym mail = "string \<times> string \<times> pyval \<times> string list"

text \<open>
  The state outside the functions: the two tables of the relational store, the
  \<open>action\<close> signals sent so far, and the batches handed to \<open>send_mass_mail\<close> so far (one
  entry per call). Nothing is rolled back when a call raises, so every function returns
  the state it leaves behind together with its result or its error.
\<close>

record store =
  follows :: "follow_row list"
  next_follow_id :: nat
  actions :: "action_row list"
  signals :: "sent_signal list"
  outbox :: "mail list list"

text \<open>
  What \<open>actions.py\<close> reads from its collaborators and its settings, none of which is
  part of the module:
  \<^item> \<open>registered\<close>: the registry of actionable models consulted by
    \<open>check_actionable_model\<close>;
  \<^item> \<open>unique_together\<close>: whether the \<open>Follow\<close> model, which is declared in
    \<open>actstream.models\<close>, makes \<open>(user, content_type, object_id)\<close> unique; the data model
    of the spec has it so ("at most one relationship per (user, target entity) pair");
  \<^item> \<open>USE_JSONFIELD\<close>: \<open>actstream.settings.USE_JSONFIELD\<close>;
  \<^item> \<open>CONTACT_EMAIL\<close>: the Django setting of that name, if it is set;
  \<^item> \<open>render_to_string\<close>: the template renderer, applied to the template name and the
    action of the context;
  \<^item> \<open>email\<close> and \<open>email_notification\<close>: \<open>u.email\<close> and
    \<open>u.get_profile().email_notification\<close> of a user;
  \<^item> \<open>now\<close>: the clock reading of \<open>now()\<close>;
  \<^item> \<open>ugettext\<close>: the translation of a message in the active language.
\<close>

record env =
  registered :: "string \<Rightarrow> bool"
  unique_together :: bool
  USE_JSONFIELD :: bool
  CONTACT_EMAIL :: "pyval option"
  render_to_string :: "string \<Rightarrow> action_row \<Rightarrow> string"
  email :: "entity \<Rightarrow> string"
  email_notification :: "entity \<Rightarrow> bool"
  now :: int
  ugettext :: "string \<Rightarrow> string"

type_synonym 'a result = "(error + 'a) \<times> store"

section \<open>Python and Django primitives\<close>

text \<open>\<open>bool(v)\<close>: the truth value of a Python value.\<close>

fun truthy :: "pyval \<Rightarrow> bool" where
  "truthy PNone = False"
| "truthy (PBool b) = b"
| "truthy (PInt i) = (i \<noteq> 0)"
| "truthy (PStr s) = (s \<noteq> [])"
| "truthy (PObj x) = True"
| "truthy PSignal = True"
| "truthy (PDict d) = (d \<noteq> [])"

text \<open>\<open>unicode(verb)\<close>.\<close>

fun unicode :: "env \<Rightarrow> verb_text \<Rightarrow> string" where
  "unicode e (Plain s) = s"
| "unicode e (Lazy s) = ugettext e s"

text \<open>The dictionary without a key.\<close>

definition drop_key :: "string \<Rightarrow> kwargs \<Rightarrow> kwargs" where
  "drop_key key kw = filter (\<lambda>(k, _). k \<noteq> key) kw"

text \<open>
  \<open>kwargs.pop(key, default)\<close>: the value under the key (the default if the key is
  absent) and the dictionary without the key.
\<close>

definition pop :: "string \<Rightarrow> pyval \<Rightarrow> kwargs \<Rightarrow> pyval \<times> kwargs" where
  "pop key dflt kw =
     (case map_of kw key of
        None \<Rightarrow> (dflt, kw)
      | Some v \<Rightarrow> (v, drop_key key kw))"

text \<open>\<open>kwargs.pop(key)\<close> without a default raises \<open>KeyError\<close> on an absent key.\<close>

definition pop_required :: "string \<Rightarrow> kwargs \<Rightarrow> error + (pyval \<times> kwargs)" where
  "pop_required key kw =
     (case map_of kw key of
        None \<Rightarrow> Inl KeyError
      | Some v \<Rightarrow> Inr (v, drop_key key kw))"

text \<open>\<open>str.rstrip()\<close>: the characters for which \<open>isspace\<close> holds are dropped at the end.\<close>

definition isspace :: "char \<Rightarrow> bool" where
  "isspace c = (c \<in> set [CHR 0x09, CHR 0x0A, CHR 0x0B, CHR 0x0C, CHR 0x0D,
                          CHR 0x1C, CHR 0x1D, CHR 0x1E, CHR 0x1F, CHR 0x20,
                          CHR 0x85, CHR 0xA0])"

definition rstrip :: "string \<Rightarrow> string" where
  "rstrip s = rev (dropWhile isspace (rev s))"

text \<open>
  Modelled from the spec: \<open>check_actionable_model\<close> of \<open>actstream.exceptions\<close>, which is
  not part of the module. The spec: the entity registry \<open>isRegistered(entityKind)\<close>
  determines which entity kinds may participate, and the call fails with
  \<open>UnregisteredEntityError\<close> for a value not recognized by the registry. A value that
  is no model instance has no registered kind.
\<close>

fun check_actionable_model :: "env \<Rightarrow> pyval \<Rightarrow> error + unit" where
  "check_actionable_model e (PObj x) =
     (if registered e (model x) then Inr () else Inl UnregisteredEntityError)"
| "check_actionable_model e v = Inl UnregisteredEntityError"

subsection \<open>The \<open>Follow\<close> manager\<close>

text \<open>
  The rows selected by \<open>Follow.objects.filter(user=..., object_id=..., content_type=...)\<close>.
\<close>

definition follows_of :: "entity \<Rightarrow> entity \<Rightarrow> follow_row \<Rightarrow> bool" where
  "follows_of u x f = (user f = u \<and> object_id f = pk x \<and> content_type f = model x)"

text \<open>
  The rows selected by the lookup of \<open>follow\<close>, which names all five columns.
\<close>

definition matches :: "entity \<Rightarrow> entity \<Rightarrow> bool \<Rightarrow> bool \<Rightarrow> follow_row \<Rightarrow> bool" where
  "matches u x ao em f = (follows_of u x f \<and> actor_only f = ao \<and> send_email f = em)"

text \<open>\<open>Follow.objects.get(**lookup)\<close>.\<close>

definition get_follow ::
  "entity \<Rightarrow> entity \<Rightarrow> bool \<Rightarrow> bool \<Rightarrow> follow_row list \<Rightarrow> error + follow_row" where
  "get_follow u x ao em tbl =
     (case filter (matches u x ao em) tbl of
        [] \<Rightarrow> Inl DoesNotExist
      | [f] \<Rightarrow> Inr f
      | _ \<Rightarrow> Inl MultipleObjectsReturned)"

text \<open>
  \<open>obj.save(force_insert=True)\<close> of a new row. The database gives the row the next
  primary key, and refuses it with \<open>IntegrityError\<close> when the table is declared unique
  on \<open>(user, content_type, object_id)\<close> and holds a row for the pair already.
\<close>

definition insert_follow ::
  "env \<Rightarrow> entity \<Rightarrow> entity \<Rightarrow> bool \<Rightarrow> bool \<Rightarrow> store \<Rightarrow> follow_row result" where
  "insert_follow e u x ao em s =
     (if unique_together e \<and> filter (follows_of u x) (follows s) \<noteq> []
      then (Inl IntegrityError, s)
      else
        (let f = \<lparr>follow_id = next_follow_id s, user = u, object_id = pk x,
                  content_type = model x, actor_only = ao, send_email = em\<rparr>
         in (Inr f, s\<lparr>follows := follows s @ [f],
                      next_follow_id := Suc (next_follow_id s)\<rparr>)))"

text \<open>
  \<open>Follow.objects.get_or_create(**kwargs)\<close> without \<open>defaults\<close>: the lookup is by every
  keyword; a row is created when none matches; when the insertion is refused the lookup
  is repeated and, if it finds nothing again, the \<open>IntegrityError\<close> is raised.
\<close>

definition get_or_create ::
  "env \<Rightarrow> entity \<Rightarrow> entity \<Rightarrow> bool \<Rightarrow> bool \<Rightarrow> store \<Rightarrow> (follow_row \<times> bool) result" where
  "get_or_create e u x ao em s =
     (case get_follow u x ao em (follows s) of
        Inr f \<Rightarrow> (Inr (f, False), s)
      | Inl DoesNotExist \<Rightarrow>
          (case insert_follow e u x ao em s of
             (Inr f, s') \<Rightarrow> (Inr (f, True), s')
           | (Inl err, s') \<Rightarrow>
               (case get_follow u x ao em (follows s') of
                  Inr f \<Rightarrow> (Inr (f, False), s')
                | Inl DoesNotExist \<Rightarrow> (Inl err, s')
                | Inl err' \<Rightarrow> (Inl err', s')))
      | Inl err \<Rightarrow> (Inl err, s))"

text \<open>\<open>f.save()\<close> of a row read from the table: the row with its primary key is replaced.\<close>

definition save_follow :: "follow_row \<Rightarrow> follow_row list \<Rightarrow> follow_row list" where
  "save_follow f tbl = map (\<lambda>r. if follow_id r = follow_id f then f else r) tbl"

section \<open>The functions of \<open>actions.py\<close>\<close>

subsection \<open>\<open>send_email_notifications\<close>\<close>

text \<open>
  Modelled from the spec: \<open>action_followers\<close> of \<open>actstream.models\<close>, which is not part
  of the module. The spec: \<open>sendEmailNotifications\<close> "finds all users following the
  action's actor"; these are the users of the \<open>Follow\<close> rows whose followed object is
  the actor of the action, each user once.
\<close>

definition action_followers :: "store \<Rightarrow> action_row \<Rightarrow> entity list" where
  "action_followers s a =
     remdups (map user
       (filter (\<lambda>f. content_type f = actor_content_type a \<and> object_id f = actor_object_id a)
          (follows s)))"

definition send_mass_mail :: "mail list \<Rightarrow> store \<Rightarrow> store" where
  "send_mass_mail email_batch s = s\<lparr>outbox := outbox s @ [email_batch]\<rparr>"

definition email_batch_of :: "env \<Rightarrow> store \<Rightarrow> action_row \<Rightarrow> mail list" where
  "email_batch_of e s a =
     (let users = action_followers s a;
          users = filter (email_notification e) users;
          subject = render_to_string e ''email_notification/message_subject.txt'' a;
          subject = rstrip subject;
          message = render_to_string e ''email_notification/message_body.txt'' a;
          from_addr = (case CONTACT_EMAIL e of Some v \<Rightarrow> v | None \<Rightarrow> PDict [])
      in map (\<lambda>u. (subject, message, from_addr, [email e u])) users)"

definition send_email_notifications :: "env \<Rightarrow> action_row \<Rightarrow> store \<Rightarrow> store" where
  "send_email_notifications e a s = send_mass_mail (email_batch_of e s a) s"

subsection \<open>\<open>action_handler\<close>\<close>

text \<open>
  \<open>setattr(newaction, '%s_object_id' % opt, obj.pk)\<close> and
  \<open>setattr(newaction, '%s_content_type' % opt, ContentType.objects.get_for_model(obj))\<close>.
\<close>

definition setattr_reference :: "string \<Rightarrow> entity \<Rightarrow> action_row \<Rightarrow> action_row" where
  "setattr_reference opt x a =
     (if opt = ''target''
      then a\<lparr>target_object_id := Some (pk x), target_content_type := Some (model x)\<rparr>
      else if opt = ''action_object''
      then a\<lparr>action_object_object_id := Some (pk x),
              action_object_content_type := Some (model x)\<rparr>
      else a)"

text \<open>The loop \<open>for opt in ('target', 'action_object')\<close>.\<close>

fun set_references ::
  "env \<Rightarrow> string list \<Rightarrow> kwargs \<Rightarrow> action_row \<Rightarrow> error + (kwargs \<times> action_row)" where
  "set_references e [] kw a = Inr (kw, a)"
| "set_references e (opt # opts) kw a =
     (case pop opt PNone kw of
        (PNone, kw') \<Rightarrow> set_references e opts kw' a
      | (PObj x, kw') \<Rightarrow>
          (case check_actionable_model e (PObj x) of
             Inl err \<Rightarrow> Inl err
           | Inr _ \<Rightarrow> set_references e opts kw' (setattr_reference opt x a))
      | (v, kw') \<Rightarrow>
          (case check_actionable_model e v of
             Inl err \<Rightarrow> Inl err
           | Inr _ \<Rightarrow> set_references e opts kw' a))"

definition save_action :: "action_row \<Rightarrow> store \<Rightarrow> store" where
  "save_action a s = s\<lparr>actions := actions s @ [a]\<rparr>"

text \<open>
  The constructor call \<open>Action(actor_content_type=..., actor_object_id=..., verb=...,
  public=..., description=..., timestamp=...)\<close>; the attributes it is not given are
  empty.
\<close>

definition Action :: "string \<Rightarrow> nat \<Rightarrow> string \<Rightarrow> bool \<Rightarrow> pyval \<Rightarrow> pyval \<Rightarrow> action_row" where
  "Action ct oid vb pub descr ts =
     \<lparr>actor_content_type = ct, actor_object_id = oid, verb = vb, is_public = pub,
      description = descr, timestamp = ts,
      target_object_id = None, target_content_type = None,
      action_object_object_id = None, action_object_content_type = None,
      data = None\<rparr>"

definition action_handler :: "env \<Rightarrow> verb_text \<Rightarrow> kwargs \<Rightarrow> store \<Rightarrow> unit result" where
  "action_handler e vb kwargs s =
     (let (_, kwargs) = pop ''signal'' PNone kwargs in
      case pop_required ''sender'' kwargs of
        Inl err \<Rightarrow> (Inl err, s)
      | Inr (actor, kwargs) \<Rightarrow>
          (case actor of
             PObj actor_obj \<Rightarrow>
               (case check_actionable_model e actor of
                  Inl err \<Rightarrow> (Inl err, s)
                | Inr _ \<Rightarrow>
                    (let (pub, kwargs) = pop ''public'' (PBool True) kwargs;
                         (descr, kwargs) = pop ''description'' PNone kwargs;
                         (ts, kwargs) = pop ''timestamp'' (PInt (now e)) kwargs;
                         newaction = Action (model actor_obj) (pk actor_obj) (unicode e vb)
                                       (truthy pub) descr ts
                     in case set_references e [''target'', ''action_object''] kwargs newaction of
                          Inl err \<Rightarrow> (Inl err, s)
                        | Inr (kwargs, newaction) \<Rightarrow>
                            (let newaction =
                                   (if USE_JSONFIELD e \<and> length kwargs \<noteq> 0
                                    then newaction\<lparr>data := Some kwargs\<rparr>
                                    else newaction);
                                 s = save_action newaction s
                             in (Inr (), send_email_notifications e newaction s))))
           | _ \<Rightarrow> (check_actionable_model e actor, s)))"

text \<open>
  Modelled from the spec: the event bus, that is the \<open>action\<close> signal and its connection
  to \<open>action_handler\<close>, both made in \<open>actstream.models\<close>, which is not part of the
  module. The spec: "publish/subscribe for named events carrying keyword payloads;
  \<open>actionHandler\<close> is registered as subscriber to the action event" and is "invoked
  whenever an action event fires". The sent signal is recorded, and the subscriber is
  called with the signal object, the sender and the named arguments; what it raises
  reaches the sender of the signal.
\<close>

definition action_send :: "env \<Rightarrow> entity \<Rightarrow> verb_text \<Rightarrow> kwargs \<Rightarrow> store \<Rightarrow> unit result" where
  "action_send e sender vb named s =
     action_handler e vb ((''signal'', PSignal) # (''sender'', PObj sender) # named)
       (s\<lparr>signals := signals s @ [\<lparr>sig_sender = sender, sig_verb = vb, sig_named = named\<rparr>]\<rparr>)"

subsection \<open>\<open>follow\<close>\<close>

definition follow ::
  "env \<Rightarrow> entity \<Rightarrow> entity \<Rightarrow> bool \<Rightarrow> bool \<Rightarrow> bool \<Rightarrow> store \<Rightarrow> follow_row result" where
  "follow e usr obj send_action ao email_notif s =
     (case check_actionable_model e (PObj obj) of
        Inl err \<Rightarrow> (Inl err, s)
      | Inr _ \<Rightarrow>
          (case get_or_create e usr obj ao email_notif s of
             (Inl err, s') \<Rightarrow> (Inl err, s')
           | (Inr (flw, created), s') \<Rightarrow>
               (if send_action \<and> created
                then (case action_send e usr (Lazy ''started following'')
                             [(''target'', PObj obj)] s' of
                        (Inl err, s'') \<Rightarrow> (Inl err, s'')
                      | (Inr _, s'') \<Rightarrow> (Inr flw, s''))
                else (Inr flw, s'))))"

subsection \<open>\<open>set_all_email_notifications\<close>\<close>

text \<open>The loop \<open>for f in follow_list: f.send_email = enable; f.save()\<close>.\<close>

fun save_each :: "bool \<Rightarrow> follow_row list \<Rightarrow> follow_row list \<Rightarrow> follow_row list" where
  "save_each enable [] tbl = tbl"
| "save_each enable (f # fs) tbl =
     save_each enable fs (save_follow (f\<lparr>send_email := enable\<rparr>) tbl)"

definition set_all_email_notifications :: "entity \<Rightarrow> bool \<Rightarrow> store \<Rightarrow> store" where
  "set_all_email_notifications usr enable s =
     (let follow_list = filter (\<lambda>f. user f = usr) (follows s)
      in s\<lparr>follows := save_each enable follow_list (follows s)\<rparr>)"

subsection \<open>\<open>unfollow\<close>\<close>

definition unfollow :: "env \<Rightarrow> entity \<Rightarrow> entity \<Rightarrow> bool \<Rightarrow> store \<Rightarrow> unit result" where
  "unfollow e usr obj send_action s =
     (case check_actionable_model e (PObj obj) of
        Inl err \<Rightarrow> (Inl err, s)
      | Inr _ \<Rightarrow>
          (let s' = s\<lparr>follows := filter (\<lambda>f. \<not> follows_of usr obj f) (follows s)\<rparr>
           in if send_action
              then action_send e usr (Lazy ''stopped following'') [(''target'', PObj obj)] s'
              else (Inr (), s')))"

subsection \<open>\<open>is_following\<close>\<close>

definition is_following :: "env \<Rightarrow> entity \<Rightarrow> entity \<Rightarrow> store \<Rightarrow> bool result" where
  "is_following e usr obj s =
     (case check_actionable_model e (PObj obj) of
        Inl err \<Rightarrow> (Inl err, s)
      | Inr _ \<Rightarrow> (Inr (length (filter (follows_of usr obj) (follows s)) \<noteq> 0), s))"

section \<open>Notions used in the statements\<close>

text \<open>The dictionary without the keys of a list.\<close>

definition drop_keys :: "string list \<Rightarrow> kwargs \<Rightarrow> kwargs" where
  "drop_keys ks kw = filter (\<lambda>(k, _). k \<notin> set ks) kw"

text \<open>
  The value passed under a keyword; an absent keyword and the value \<open>None\<close> both count as
  not supplied, as in \<open>obj = kwargs.pop(opt, None)\<close> followed by \<open>if not obj is None\<close>.
\<close>

definition supplied :: "kwargs \<Rightarrow> string \<Rightarrow> pyval option" where
  "supplied kw key = (case map_of kw key of Some PNone \<Rightarrow> None | r \<Rightarrow> r)"

text \<open>\<open>kwargs.get(key, default)\<close>.\<close>

definition get_default :: "kwargs \<Rightarrow> string \<Rightarrow> pyval \<Rightarrow> pyval" where
  "get_default kw key dflt = (case map_of kw key of None \<Rightarrow> dflt | Some v \<Rightarrow> v)"

text \<open>
  The assignment \<open>newaction.data = kwargs\<close> under its guard
  \<open>settings.USE_JSONFIELD and len(kwargs)\<close>.
\<close>

definition stored :: "env \<Rightarrow> kwargs \<Rightarrow> action_row \<Rightarrow> action_row" where
  "stored e kw a = (if USE_JSONFIELD e \<and> kw \<noteq> [] then a\<lparr>data := Some kw\<rparr> else a)"

text \<open>
  The keyword arguments beyond \<open>signal\<close>, the sender (the actor), \<open>public\<close>,
  \<open>description\<close>, \<open>timestamp\<close>, \<open>target\<close> and \<open>action_object\<close>.
\<close>

definition leftover_kwargs :: "kwargs \<Rightarrow> kwargs" where
  "leftover_kwargs kw =
     filter (\<lambda>(k, _). k \<notin> set [''signal'', ''sender'', ''public'', ''description'',
                                  ''timestamp'', ''target'', ''action_object'']) kw"

text \<open>A configuration, a store and some instances to run the functions on.\<close>

definition example_env :: env where
  "example_env =
     \<lparr>registered = (\<lambda>m. m = ''auth.user'' \<or> m = ''group''),
      unique_together = False,
      USE_JSONFIELD = True,
      CONTACT_EMAIL = Some (PStr ''noreply@example.com''),
      render_to_string = (\<lambda>name a. name @ '' '' @ verb a @ [CHR 0x0A]),
      email = (\<lambda>u. ''user'' @ replicate (pk u) CHR ''+'' @ ''@example.com''),
      email_notification = (\<lambda>u. pk u \<noteq> 2),
      now = 0,
      ugettext = (\<lambda>msg. msg)\<rparr>"

definition empty_store :: store where
  "empty_store = \<lparr>follows = [], next_follow_id = 1, actions = [], signals = [], outbox = []\<rparr>"

definition alice :: entity where
  "alice = \<lparr>model = ''auth.user'', pk = 1\<rparr>"

definition bob :: entity where
  "bob = \<lparr>model = ''auth.user'', pk = 2\<rparr>"

definition club :: entity where
  "club = \<lparr>model = ''group'', pk = 7\<rparr>"

definition example_kwargs :: kwargs where
  "example_kwargs = [(''signal'', PSignal), (''sender'', PObj alice), (''note'', PStr ''hi'')]"

text \<open>
  The row that \<open>get_or_create\<close> inserts, and the condition under which it inserts one: the
  lookup by all five columns finds nothing and the table does not refuse the row.
\<close>

definition created_row :: "entity \<Rightarrow> entity \<Rightarrow> bool \<Rightarrow> bool \<Rightarrow> store \<Rightarrow> follow_row" where
  "created_row u x ao em s =
     \<lparr>follow_id = next_follow_id s, user = u, object_id = pk x, content_type = model x,
      actor_only = ao, send_email = em\<rparr>"

definition would_create :: "env \<Rightarrow> entity \<Rightarrow> entity \<Rightarrow> bool \<Rightarrow> bool \<Rightarrow> follow_row list \<Rightarrow> bool" where
  "would_create e u x ao em tbl =
     (filter (matches u x ao em) tbl = [] \<and>
      \<not> (unique_together e \<and> filter (follows_of u x) tbl \<noteq> []))"

text \<open>The signal that \<open>follow\<close> and \<open>unfollow\<close> send.\<close>

definition follow_signal :: "entity \<Rightarrow> string \<Rightarrow> entity \<Rightarrow> sent_signal" where
  "follow_signal u msg x =
     \<lparr>sig_sender = u, sig_verb = Lazy msg, sig_named = [(''target'', PObj x)]\<rparr>"

text \<open>The number of rows of the table for a (user, followed object) pair.\<close>

definition rel_count :: "entity \<Rightarrow> entity \<Rightarrow> follow_row list \<Rightarrow> nat" where
  "rel_count u x tbl = length (filter (follows_of u x) tbl)"

text \<open>
  A keyword names a value that \<open>check_actionable_model\<close> refuses.
\<close>

definition unrecognized :: "env \<Rightarrow> kwargs \<Rightarrow> string \<Rightarrow> bool" where
  "unrecognized e kw key =
     (case supplied kw key of None \<Rightarrow> False | Some v \<Rightarrow> check_actionable_model e v \<noteq> Inr ())"

text \<open>
  The primary keys of the \<open>Follow\<close> table are distinct and below the next key that the
  database hands out.
\<close>

definition wf_store :: "store \<Rightarrow> bool" where
  "wf_store s =
     (distinct (map follow_id (follows s)) \<and>
      list_all (\<lambda>f. follow_id f < next_follow_id s) (follows s))"

text \<open>At most one row of the table for every (user, followed object) pair.\<close>

definition pair_unique :: "follow_row list \<Rightarrow> bool" where
  "pair_unique tbl = distinct (map (\<lambda>f. (user f, content_type f, object_id f)) tbl)"

text \<open>A call of one of the functions of the module, and the store a sequence of calls leaves.\<close>

datatype call =
    Follow entity entity bool bool bool
  | SetAllEmailNotifications entity bool
  | Unfollow entity entity bool
  | IsFollowing entity entity
  | ActionHandler verb_text kwargs

fun step :: "env \<Rightarrow> call \<Rightarrow> store \<Rightarrow> store" where
  "step e (Follow u x sa ao em) s = snd (follow e u x sa ao em s)"
| "step e (SetAllEmailNotifications u enable) s = set_all_email_notifications u enable s"
| "step e (Unfollow u x sa) s = snd (unfollow e u x sa s)"
| "step e (IsFollowing u x) s = snd (is_following e u x s)"
| "step e (ActionHandler vb kw) s = snd (action_handler e vb kw s)"

fun run :: "env \<Rightarrow> call list \<Rightarrow> store \<Rightarrow> store" where
  "run e [] s = s"
| "run e (c # cs) s = run e cs (step e c s)"

text \<open>A store with rows of two users.\<close>

definition example_store :: store where
  "example_store =
     \<lparr>follows =
        [\<lparr>follow_id = 1, user = alice, object_id = 7, content_type = ''group'',
          actor_only = True, send_email = False\<rparr>,
         \<lparr>follow_id = 2, user = bob, object_id = 7, content_type = ''group'',
          actor_only = True, send_email = False\<rparr>,
         \<lparr>follow_id = 3, user = alice, object_id = 2, content_type = ''auth.user'',
          actor_only = False, send_email = True\<rparr>],
      next_follow_id = 4, actions = [], signals = [], outbox = []\<rparr>"

text \<open>
  The same configuration with a \<open>Follow\<close> table that is unique on the pair, as the data
  model has it.
\<close>

definition strict_env :: env where
  "strict_env = example_env\<lparr>unique_together := True\<rparr>"

text \<open>A sequence of calls.\<close>

definition example_calls :: "call list" where
  "example_calls =
     [Follow alice club True True False,
      Follow alice club True False True,
      SetAllEmailNotifications alice True,
      Follow alice club False True True,
      Unfollow bob club True,
      Follow bob club True True False]"

text \<open>A configuration in which the model of the users is not registered.\<close>

definition groups_only_env :: env where
  "groups_only_env = example_env\<lparr>registered := (\<lambda>m. m = ''group'')\<rparr>"

text \<open>The users with a \<open>Follow\<close> row on the actor of an action.\<close>

definition follows_actor :: "store \<Rightarrow> action_row \<Rightarrow> entity \<Rightarrow> bool" where
  "follows_actor s a u =
     list_ex (\<lambda>f. user f = u \<and> content_type f = actor_content_type a \<and>
                   object_id f = actor_object_id a) (follows s)"

text \<open>The message that \<open>send_email_notifications\<close> builds for a recipient.\<close>

definition notification :: "env \<Rightarrow> action_row \<Rightarrow> entity \<Rightarrow> mail" where
  "notification e a u =
     (rstrip (render_to_string e ''email_notification/message_subject.txt'' a),
      render_to_string e ''email_notification/message_body.txt'' a,
      (case CONTACT_EMAIL e of Some v \<Rightarrow> v | None \<Rightarrow> PDict []),
      [email e u])"

text \<open>An action of the group that \<open>alice\<close> and \<open>bob\<close> follow in \<open>example_store\<close>.\<close>

definition example_action :: action_row where
  "example_action = Action ''group'' 7 ''posted'' True PNone (PInt 0)"

section \<open>Keyword dictionaries\<close>

lemma drop_key_absent: "map_of kw key = None \<Longrightarrow> drop_key key kw = kw"
  unfolding drop_key_def by (induction kw) (auto split: if_splits)

lemma pop_eq:
  "pop key dflt kw = ((case map_of kw key of None \<Rightarrow> dflt | Some v \<Rightarrow> v), drop_key key kw)"
  by (simp add: pop_def drop_key_absent split: option.splits)

lemma map_of_drop_key:
  "map_of (drop_key key kw) k = (if k = key then None else map_of kw k)"
  unfolding drop_key_def by (induction kw) auto

lemma drop_key_drop_keys: "drop_key k (drop_keys ks kw) = drop_keys (ks @ [k]) kw"
  unfolding drop_key_def drop_keys_def by (induction kw) auto

lemma drop_key_single: "drop_key k kw = drop_keys [k] kw"
  unfolding drop_key_def drop_keys_def by simp

lemma map_of_drop_keys:
  "map_of (drop_keys ks kw) k = (if k \<in> set ks then None else map_of kw k)"
  unfolding drop_keys_def by (induction kw) auto

lemma set_references_step:
  "set_references e (opt # opts) kw a = Inr r \<Longrightarrow>
     \<exists>a0. set_references e opts (drop_key opt kw) a0 = Inr r \<and> data a0 = data a"
  by (auto simp: pop_eq setattr_reference_def
           split: pyval.splits sum.splits option.splits if_splits)

lemma set_references_Inr:
  "set_references e opts kw a = Inr (kw', a') \<Longrightarrow>
     kw' = drop_keys opts kw \<and> data a' = data a"
proof (induction opts arbitrary: kw a)
  case Nil
  then show ?case by (simp add: drop_keys_def)
next
  case (Cons opt opts)
  have dk: "drop_keys opts (drop_key opt kw) = drop_keys (opt # opts) kw"
    unfolding drop_keys_def drop_key_def by (induction kw) auto
  from set_references_step [OF Cons.prems] obtain a0
    where a0: "set_references e opts (drop_key opt kw) a0 = Inr (kw', a')" "data a0 = data a"
    by blast
  from Cons.IH [OF a0(1)] a0(2) dk show ?case by simp
qed

lemma set_references_Inl:
  "set_references e opts kw a = Inl err \<Longrightarrow> err = UnregisteredEntityError"
proof (induction opts arbitrary: kw a)
  case Nil
  then show ?case by simp
next
  case (Cons opt opts)
  from Cons.prems Cons.IH show ?case
    by (auto simp: pop_eq split: pyval.splits sum.splits option.splits if_splits)
qed

lemma set_references_absent:
  "\<forall>opt\<in>set opts. supplied kw opt = None \<Longrightarrow>
     set_references e opts kw a = Inr (drop_keys opts kw, a)"
proof (induction opts arbitrary: kw)
  case Nil
  then show ?case by (simp add: drop_keys_def)
next
  case (Cons opt opts)
  have dk: "drop_keys opts (drop_key opt kw) = drop_keys (opt # opts) kw"
    unfolding drop_keys_def drop_key_def by (induction kw) auto
  have "\<forall>o'\<in>set opts. supplied (drop_key opt kw) o' = None"
    using Cons.prems by (auto simp: supplied_def map_of_drop_key)
  then have "set_references e opts (drop_key opt kw) a = Inr (drop_keys opts (drop_key opt kw), a)"
    by (rule Cons.IH)
  moreover have "supplied kw opt = None" using Cons.prems by simp
  ultimately show ?case
    by (auto simp: pop_eq dk supplied_def split: option.splits pyval.splits)
qed

section \<open>The shape of \<open>action_handler\<close>\<close>

lemma action_handler_no_sender:
  "map_of kw ''sender'' = None \<Longrightarrow> action_handler e vb kw s = (Inl KeyError, s)"
  by (simp add: action_handler_def pop_eq pop_required_def map_of_drop_key)

lemma action_handler_unrecognized:
  assumes "map_of kw ''sender'' = Some v" and "check_actionable_model e v = Inl err"
  shows "action_handler e vb kw s = (Inl err, s)"
  using assms
  by (cases v) (simp_all add: action_handler_def pop_eq pop_required_def map_of_drop_key)

lemma action_handler_recognized:
  assumes "map_of kw ''sender'' = Some (PObj a)" and "registered e (model a)"
  shows "action_handler e vb kw s =
     (case set_references e [''target'', ''action_object'']
             (drop_keys [''signal'', ''sender'', ''public'', ''description'', ''timestamp''] kw)
             (Action (model a) (pk a) (unicode e vb)
                (truthy (get_default kw ''public'' (PBool True)))
                (get_default kw ''description'' PNone)
                (get_default kw ''timestamp'' (PInt (now e)))) of
        Inl err \<Rightarrow> (Inl err, s)
      | Inr (kw', r) \<Rightarrow>
          (Inr (), send_email_notifications e (stored e kw' r) (save_action (stored e kw' r) s)))"
  using assms
  by (simp add: action_handler_def pop_eq pop_required_def map_of_drop_key Let_def
        get_default_def stored_def drop_key_drop_keys drop_key_single [of "''signal''"]
        map_of_drop_keys
        del: set_references.simps split: sum.splits prod.splits)

lemma action_handler_shape:
  "(\<exists>err. action_handler e vb kw s = (Inl err, s)) \<or>
   (\<exists>r. action_handler e vb kw s =
          (Inr (), send_email_notifications e r (save_action r s)))"
proof (cases "map_of kw ''sender''")
  case None
  then show ?thesis by (simp add: action_handler_no_sender)
next
  case (Some v)
  show ?thesis
  proof (cases "check_actionable_model e v")
    case (Inl err)
    with Some show ?thesis by (simp add: action_handler_unrecognized)
  next
    case (Inr u)
    then obtain a where a: "v = PObj a" "registered e (model a)"
      by (cases v) (auto split: if_splits)
    show ?thesis
      unfolding action_handler_recognized [OF Some [unfolded a(1)] a(2)]
      by (auto split: sum.splits)
  qed
qed

section \<open>What \<open>action_handler\<close> stores\<close>

lemma leftover_kwargs_eq:
  "leftover_kwargs kw = drop_keys [''signal'', ''sender'', ''public'', ''description'',
                                   ''timestamp'', ''target'', ''action_object''] kw"
  by (simp add: leftover_kwargs_def drop_keys_def)

lemma drop_keys_drop_keys: "drop_keys ks' (drop_keys ks kw) = drop_keys (ks @ ks') kw"
  unfolding drop_keys_def by (induction kw) auto

lemma action_handler_saves:
  assumes "action_handler e vb kw s = (Inr (), s')"
  shows "\<exists>a r. map_of kw ''sender'' = Some (PObj a) \<and> registered e (model a) \<and>
           data r = None \<and>
           s' = send_email_notifications e (stored e (leftover_kwargs kw) r)
                  (save_action (stored e (leftover_kwargs kw) r) s)"
proof (cases "map_of kw ''sender''")
  case None
  with assms show ?thesis by (simp add: action_handler_no_sender)
next
  case (Some v)
  show ?thesis
  proof (cases "check_actionable_model e v")
    case (Inl err)
    with Some assms show ?thesis by (simp add: action_handler_unrecognized)
  next
    case (Inr u)
    then obtain a where a: "v = PObj a" "registered e (model a)"
      by (cases v) (auto split: if_splits)
    let ?kw5 = "drop_keys [''signal'', ''sender'', ''public'', ''description'', ''timestamp''] kw"
    let ?new = "Action (model a) (pk a) (unicode e vb)
                (truthy (get_default kw ''public'' (PBool True)))
                (get_default kw ''description'' PNone)
                (get_default kw ''timestamp'' (PInt (now e)))"
    from assms obtain kw' r where
      sr: "set_references e [''target'', ''action_object''] ?kw5 ?new = Inr (kw', r)"
      and s': "s' = send_email_notifications e (stored e kw' r) (save_action (stored e kw' r) s)"
      unfolding action_handler_recognized [OF Some [unfolded a(1)] a(2)]
      by (auto split: sum.splits)
    from set_references_Inr [OF sr]
    have "kw' = drop_keys [''target'', ''action_object''] ?kw5" "data r = data ?new"
      by simp_all
    then have "kw' = leftover_kwargs kw" "data r = None"
      by (simp_all add: leftover_kwargs_eq drop_keys_drop_keys Action_def)
    with s' Some a show ?thesis by blast
  qed
qed

lemma save_action_simps:
  "actions (save_action r s) = actions s @ [r]"
  "follows (save_action r s) = follows s"
  "signals (save_action r s) = signals s"
  "outbox (save_action r s) = outbox s"
  "next_follow_id (save_action r s) = next_follow_id s"
  by (simp_all add: save_action_def)

lemma send_email_notifications_simps:
  "actions (send_email_notifications e a s) = actions s"
  "follows (send_email_notifications e a s) = follows s"
  "signals (send_email_notifications e a s) = signals s"
  "outbox (send_email_notifications e a s) = outbox s @ [email_batch_of e s a]"
  "next_follow_id (send_email_notifications e a s) = next_follow_id s"
  by (simp_all add: send_email_notifications_def send_mass_mail_def)

lemma action_handler_saves_fst:
  assumes "fst (action_handler e vb kw s) = Inr ()"
  shows "\<exists>a r. map_of kw ''sender'' = Some (PObj a) \<and> registered e (model a) \<and>
           data r = None \<and>
           snd (action_handler e vb kw s) =
             send_email_notifications e (stored e (leftover_kwargs kw) r)
               (save_action (stored e (leftover_kwargs kw) r) s)"
proof -
  from assms have "action_handler e vb kw s = (Inr (), snd (action_handler e vb kw s))"
    by (simp add: prod_eq_iff)
  from action_handler_saves [OF this] show ?thesis .
qed

lemma example_kwargs_call:
  "action_handler example_env (Plain ''joined'') example_kwargs empty_store =
   (let r = (Action ''auth.user'' 1 ''joined'' True PNone (PInt 0))
              \<lparr>data := Some [(''note'', PStr ''hi'')]\<rparr>
    in (Inr (), send_email_notifications example_env r (save_action r empty_store)))"
  by (simp add: action_handler_def pop_def pop_required_def drop_key_def example_env_def
        alice_def example_kwargs_def Let_def)

subsection \<open>The \<open>signal\<close> keyword never reaches the payload\<close>

text \<open>
  Claim C10. \<open>action_handler\<close> pops \<open>signal\<close> before it builds the \<open>Action\<close>: whenever
  the call stores a record, that is whenever it returns, and whatever the value of
  \<open>USE_JSONFIELD\<close>, the key \<open>signal\<close> is not among the keys of the payload stored in
  \<open>data\<close>.
\<close>

theorem signal_not_in_payload:
  assumes "fst (action_handler e vb kw s) = Inr ()"
  shows "\<exists>r. actions (snd (action_handler e vb kw s)) = actions s @ [r] \<and>
              (\<forall>d. data r = Some d \<longrightarrow> ''signal'' \<notin> fst ` set d)"
proof -
  from action_handler_saves_fst [OF assms] obtain r where
    r: "data r = None"
       "snd (action_handler e vb kw s) =
          send_email_notifications e (stored e (leftover_kwargs kw) r)
            (save_action (stored e (leftover_kwargs kw) r) s)"
    by blast
  let ?r = "stored e (leftover_kwargs kw) r"
  have "actions (snd (action_handler e vb kw s)) = actions s @ [?r]"
    by (simp add: r(2) send_email_notifications_simps save_action_simps)
  moreover have "''signal'' \<notin> fst ` set d" if "data ?r = Some d" for d
  proof -
    from that r(1) have "d = leftover_kwargs kw"
      by (simp add: stored_def split: if_splits)
    then show ?thesis by (auto simp: leftover_kwargs_def)
  qed
  ultimately show ?thesis by blast
qed

theorem signal_not_in_payload_witness:
  "fst (action_handler example_env (Plain ''joined'') example_kwargs empty_store) = Inr () \<and>
   (\<exists>r. actions (snd (action_handler example_env (Plain ''joined'') example_kwargs empty_store))
          = actions empty_store @ [r] \<and>
        (\<forall>d. data r = Some d \<longrightarrow> ''signal'' \<notin> fst ` set d))"
proof -
  have h: "fst (action_handler example_env (Plain ''joined'') example_kwargs empty_store) = Inr ()"
    by (simp add: example_kwargs_call Let_def)
  from h signal_not_in_payload [OF h] show ?thesis by blast
qed

subsection \<open>The payload\<close>

text \<open>
  With \<open>USE_JSONFIELD\<close> on and no keyword left over, \<open>len(kwargs)\<close> is zero and
  \<open>newaction.data\<close> is never assigned: the record is stored without a payload although
  the flag is on.
\<close>

theorem payload_counterexample:
  "USE_JSONFIELD example_env \<and>
   fst (action_handler example_env (Plain ''joined'') [(''sender'', PObj alice)] empty_store) = Inr () \<and>
   leftover_kwargs [(''sender'', PObj alice)] = [] \<and>
   map data (actions (snd (action_handler example_env (Plain ''joined'')
      [(''sender'', PObj alice)] empty_store))) = [None]"
  by (simp add: action_handler_def pop_def pop_required_def drop_key_def example_env_def
        alice_def Let_def leftover_kwargs_def send_email_notifications_simps save_action_simps
        empty_store_def Action_def)

text \<open>
  Claim C8, amended. For every \<open>action_handler\<close> call that stores a record, the leftover
  keyword arguments are stored on it as the payload if and only if \<open>USE_JSONFIELD\<close> is
  on and at least one keyword argument is left over; otherwise the record carries no
  payload.
\<close>

theorem payload_stored_iff_flag_and_leftover:
  assumes "fst (action_handler e vb kw s) = Inr ()"
  shows "\<exists>r. actions (snd (action_handler e vb kw s)) = actions s @ [r] \<and>
              (data r = Some (leftover_kwargs kw)
                 \<longleftrightarrow> USE_JSONFIELD e \<and> leftover_kwargs kw \<noteq> []) \<and>
              (\<not> (USE_JSONFIELD e \<and> leftover_kwargs kw \<noteq> []) \<longrightarrow> data r = None)"
proof -
  from action_handler_saves_fst [OF assms] obtain r where
    r: "data r = None"
       "snd (action_handler e vb kw s) =
          send_email_notifications e (stored e (leftover_kwargs kw) r)
            (save_action (stored e (leftover_kwargs kw) r) s)"
    by blast
  let ?r = "stored e (leftover_kwargs kw) r"
  have "actions (snd (action_handler e vb kw s)) = actions s @ [?r]"
    by (simp add: r(2) send_email_notifications_simps save_action_simps)
  moreover have "data ?r = Some (leftover_kwargs kw)
                 \<longleftrightarrow> USE_JSONFIELD e \<and> leftover_kwargs kw \<noteq> []"
    using r(1) by (simp add: stored_def)
  moreover have "\<not> (USE_JSONFIELD e \<and> leftover_kwargs kw \<noteq> []) \<longrightarrow> data ?r = None"
    using r(1) by (simp add: stored_def)
  ultimately show ?thesis by blast
qed

theorem payload_stored_iff_flag_and_leftover_witness:
  "fst (action_handler example_env (Plain ''joined'') example_kwargs empty_store) = Inr () \<and>
   USE_JSONFIELD example_env \<and> leftover_kwargs example_kwargs = [(''note'', PStr ''hi'')] \<and>
   (\<exists>r. actions (snd (action_handler example_env (Plain ''joined'') example_kwargs empty_store))
          = actions empty_store @ [r] \<and>
        (data r = Some (leftover_kwargs example_kwargs)
           \<longleftrightarrow> USE_JSONFIELD example_env \<and> leftover_kwargs example_kwargs \<noteq> []) \<and>
        (\<not> (USE_JSONFIELD example_env \<and> leftover_kwargs example_kwargs \<noteq> [])
           \<longrightarrow> data r = None))"
proof -
  have h: "fst (action_handler example_env (Plain ''joined'') example_kwargs empty_store) = Inr ()"
    by (simp add: example_kwargs_call Let_def)
  have "USE_JSONFIELD example_env" by (simp add: example_env_def)
  moreover have "leftover_kwargs example_kwargs = [(''note'', PStr ''hi'')]"
    by (simp add: leftover_kwargs_def example_kwargs_def)
  ultimately show ?thesis
    using h payload_stored_iff_flag_and_leftover [OF h] by blast
qed

subsection \<open>An action without target and action object\<close>

text \<open>
  Claim C5. For a registered actor, \<open>action_handler\<close> called with that actor, a verb and
  neither target nor action object (absent or \<open>None\<close>) stores exactly one \<open>Action\<close>, whose
  four reference attributes of target and action object are empty and whose actor
  reference and verb are those of the call, and then calls
  \<open>send_email_notifications\<close> once, with the new record: one batch, that of the new
  record, is handed to the mail gateway.
\<close>

theorem action_handler_without_references:
  assumes "map_of kw ''sender'' = Some (PObj a)" and "registered e (model a)"
    and "supplied kw ''target'' = None" and "supplied kw ''action_object'' = None"
  shows "\<exists>r. action_handler e vb kw s =
               (Inr (), send_email_notifications e r (save_action r s)) \<and>
             actions (snd (action_handler e vb kw s)) = actions s @ [r] \<and>
             outbox (snd (action_handler e vb kw s)) =
               outbox s @ [email_batch_of e (save_action r s) r] \<and>
             actor_content_type r = model a \<and> actor_object_id r = pk a \<and>
             verb r = unicode e vb \<and>
             target_object_id r = None \<and> target_content_type r = None \<and>
             action_object_object_id r = None \<and> action_object_content_type r = None"
proof -
  let ?kw5 = "drop_keys [''signal'', ''sender'', ''public'', ''description'', ''timestamp''] kw"
  let ?new = "Action (model a) (pk a) (unicode e vb)
                (truthy (get_default kw ''public'' (PBool True)))
                (get_default kw ''description'' PNone)
                (get_default kw ''timestamp'' (PInt (now e)))"
  have "\<forall>opt\<in>set [''target'', ''action_object'']. supplied ?kw5 opt = None"
    using assms(3,4) by (simp add: supplied_def map_of_drop_keys)
  then have sr: "set_references e [''target'', ''action_object''] ?kw5 ?new =
      Inr (drop_keys [''target'', ''action_object''] ?kw5, ?new)"
    by (rule set_references_absent)
  let ?r = "stored e (drop_keys [''target'', ''action_object''] ?kw5) ?new"
  have call: "action_handler e vb kw s =
      (Inr (), send_email_notifications e ?r (save_action ?r s))"
    unfolding action_handler_recognized [OF assms(1,2)] sr by simp
  have fields: "actor_content_type ?r = model a" "actor_object_id ?r = pk a"
      "verb ?r = unicode e vb"
      "target_object_id ?r = None" "target_content_type ?r = None"
      "action_object_object_id ?r = None" "action_object_content_type ?r = None"
    by (simp_all add: stored_def Action_def)
  have "actions (snd (action_handler e vb kw s)) = actions s @ [?r]"
    "outbox (snd (action_handler e vb kw s)) = outbox s @ [email_batch_of e (save_action ?r s) ?r]"
    by (simp_all add: call send_email_notifications_simps save_action_simps)
  with call fields show ?thesis by blast
qed

theorem action_handler_without_references_witness:
  "map_of example_kwargs ''sender'' = Some (PObj alice) \<and> registered example_env (model alice) \<and>
   supplied example_kwargs ''target'' = None \<and> supplied example_kwargs ''action_object'' = None \<and>
   (\<exists>r. action_handler example_env (Plain ''joined'') example_kwargs empty_store =
               (Inr (), send_email_notifications example_env r (save_action r empty_store)) \<and>
             actions (snd (action_handler example_env (Plain ''joined'') example_kwargs empty_store))
               = actions empty_store @ [r] \<and>
             outbox (snd (action_handler example_env (Plain ''joined'') example_kwargs empty_store)) =
               outbox empty_store @ [email_batch_of example_env (save_action r empty_store) r] \<and>
             actor_content_type r = model alice \<and> actor_object_id r = pk alice \<and>
             verb r = unicode example_env (Plain ''joined'') \<and>
             target_object_id r = None \<and> target_content_type r = None \<and>
             action_object_object_id r = None \<and> action_object_content_type r = None)"
proof -
  have h1: "map_of example_kwargs ''sender'' = Some (PObj alice)"
    by (simp add: example_kwargs_def)
  have h2: "registered example_env (model alice)"
    by (simp add: example_env_def alice_def)
  have h3: "supplied example_kwargs ''target'' = None"
    by (simp add: example_kwargs_def supplied_def)
  have h4: "supplied example_kwargs ''action_object'' = None"
    by (simp add: example_kwargs_def supplied_def)
  from h1 h2 h3 h4
    action_handler_without_references [OF h1 h2 h3 h4, of "Plain ''joined''" empty_store]
  show ?thesis by blast
qed

section \<open>What \<open>follow\<close> does to the store\<close>

lemma action_handler_frame:
  "follows (snd (action_handler e vb kw s)) = follows s"
  "signals (snd (action_handler e vb kw s)) = signals s"
  "next_follow_id (snd (action_handler e vb kw s)) = next_follow_id s"
  using action_handler_shape [of e vb kw s]
  by (auto simp: send_email_notifications_simps save_action_simps)

lemma action_handler_error_unchanged:
  "fst (action_handler e vb kw s) = Inl err \<Longrightarrow> snd (action_handler e vb kw s) = s"
  using action_handler_shape [of e vb kw s] by auto

lemma action_send_frame:
  "follows (snd (action_send e u vb named s)) = follows s"
  "signals (snd (action_send e u vb named s)) =
     signals s @ [\<lparr>sig_sender = u, sig_verb = vb, sig_named = named\<rparr>]"
  "next_follow_id (snd (action_send e u vb named s)) = next_follow_id s"
  by (simp_all add: action_send_def action_handler_frame)

lemma action_send_unregistered_sender:
  "\<not> registered e (model u) \<Longrightarrow>
     fst (action_send e u vb named s) = Inl UnregisteredEntityError"
  unfolding action_send_def
  by (subst action_handler_unrecognized [where v = "PObj u" and err = UnregisteredEntityError])
     simp_all

lemma action_send_target:
  assumes "registered e (model u)" and "registered e (model x)"
  shows "fst (action_send e u vb [(''target'', PObj x)] s) = Inr ()"
  unfolding action_send_def
  by (subst action_handler_recognized [where a = u])
     (simp_all add: assms drop_keys_def pop_def drop_key_def)

lemma get_or_create_cases:
  "would_create e u x ao em (follows s) \<Longrightarrow>
     get_or_create e u x ao em s =
       (Inr (created_row u x ao em s, True),
        s\<lparr>follows := follows s @ [created_row u x ao em s],
          next_follow_id := Suc (next_follow_id s)\<rparr>)"
  "\<not> would_create e u x ao em (follows s) \<Longrightarrow>
     snd (get_or_create e u x ao em s) = s \<and>
     (\<forall>f. fst (get_or_create e u x ao em s) \<noteq> Inr (f, True)) \<and>
     fst (get_or_create e u x ao em s) \<noteq> Inl UnregisteredEntityError"
  by (auto simp: would_create_def get_or_create_def get_follow_def insert_follow_def
        created_row_def Let_def split: list.splits sum.splits error.splits)

lemma follow_unregistered:
  "\<not> registered e (model x) \<Longrightarrow> follow e u x sa ao em s = (Inl UnregisteredEntityError, s)"
  by (simp add: follow_def)

lemma follow_not_created:
  assumes "registered e (model x)" and "\<not> would_create e u x ao em (follows s)"
  shows "snd (follow e u x sa ao em s) = s"
    and "fst (follow e u x sa ao em s) \<noteq> Inl UnregisteredEntityError"
  using assms(1) get_or_create_cases(2) [OF assms(2)]
  by (auto simp: follow_def split: prod.splits sum.splits)

lemma follow_created:
  assumes "registered e (model x)" and "would_create e u x ao em (follows s)"
  shows "follow e u x sa ao em s =
     (let s' = s\<lparr>follows := follows s @ [created_row u x ao em s],
                  next_follow_id := Suc (next_follow_id s)\<rparr>
      in if sa
         then (case fst (action_send e u (Lazy ''started following'') [(''target'', PObj x)] s') of
                 Inl err \<Rightarrow> Inl err | Inr _ \<Rightarrow> Inr (created_row u x ao em s),
               snd (action_send e u (Lazy ''started following'') [(''target'', PObj x)] s'))
         else (Inr (created_row u x ao em s), s'))"
  using assms(1)
  by (simp add: follow_def get_or_create_cases(1) [OF assms(2)] Let_def
        split: prod.splits sum.splits)

lemma follows_after_follow:
  assumes "registered e (model x)"
  shows "follows (snd (follow e u x sa ao em s)) =
     (if would_create e u x ao em (follows s)
      then follows s @ [created_row u x ao em s] else follows s)"
proof (cases "would_create e u x ao em (follows s)")
  case True
  then show ?thesis
    by (simp add: follow_created [OF assms True] Let_def action_send_frame)
next
  case False
  then show ?thesis by (simp add: follow_not_created(1) [OF assms False])
qed

lemma signals_after_follow:
  assumes "registered e (model x)"
  shows "signals (snd (follow e u x sa ao em s)) =
     (if sa \<and> would_create e u x ao em (follows s)
      then signals s @ [follow_signal u ''started following'' x] else signals s)"
proof (cases "would_create e u x ao em (follows s)")
  case True
  then show ?thesis
    by (simp add: follow_created [OF assms True] Let_def action_send_frame follow_signal_def)
next
  case False
  then show ?thesis by (simp add: follow_not_created(1) [OF assms False])
qed

lemma follow_raises_iff:
  assumes "registered e (model x)"
  shows "fst (follow e u x sa ao em s) = Inl UnregisteredEntityError \<longleftrightarrow>
     sa \<and> would_create e u x ao em (follows s) \<and> \<not> registered e (model u)"
proof (cases "would_create e u x ao em (follows s)")
  case True
  show ?thesis
  proof (cases "registered e (model u)")
    case True
    with \<open>would_create e u x ao em (follows s)\<close> show ?thesis
      by (simp add: follow_created [OF assms] Let_def action_send_target [OF True assms])
  next
    case False
    with \<open>would_create e u x ao em (follows s)\<close> show ?thesis
      by (simp add: follow_created [OF assms] Let_def action_send_unregistered_sender)
  qed
next
  case False
  then show ?thesis by (simp add: follow_not_created(2) [OF assms False])
qed

section \<open>What \<open>unfollow\<close> does to the store\<close>

lemma unfollow_unregistered:
  "\<not> registered e (model x) \<Longrightarrow> unfollow e u x sa s = (Inl UnregisteredEntityError, s)"
  by (simp add: unfollow_def)

lemma follows_after_unfollow:
  "registered e (model x) \<Longrightarrow>
     follows (snd (unfollow e u x sa s)) = filter (\<lambda>f. \<not> follows_of u x f) (follows s)"
  by (simp add: unfollow_def Let_def action_send_frame)

lemma signals_after_unfollow:
  "registered e (model x) \<Longrightarrow>
     signals (snd (unfollow e u x sa s)) =
       (if sa then signals s @ [follow_signal u ''stopped following'' x] else signals s)"
  by (simp add: unfollow_def Let_def action_send_frame follow_signal_def)

lemma unfollow_raises_iff:
  assumes "registered e (model x)"
  shows "fst (unfollow e u x sa s) = Inl UnregisteredEntityError \<longleftrightarrow>
           sa \<and> \<not> registered e (model u)"
proof (cases "registered e (model u)")
  case True
  then show ?thesis
    using assms by (simp add: unfollow_def Let_def action_send_target)
next
  case False
  then show ?thesis
    using assms by (simp add: unfollow_def Let_def action_send_unregistered_sender)
qed

section \<open>Following twice\<close>

lemma would_create_row_matches:
  "matches u x ao em (created_row u x ao em s)" "follows_of u x (created_row u x ao em s)"
  by (simp_all add: matches_def follows_of_def created_row_def)

lemma rel_count_after_follow:
  assumes "registered e (model x)"
  shows "0 < rel_count u x (follows (snd (follow e u x sa ao em s)))"
proof (cases "would_create e u x ao em (follows s)")
  case True
  then show ?thesis
    by (simp add: follows_after_follow [OF assms] rel_count_def would_create_row_matches)
next
  case False
  then have "filter (follows_of u x) (follows s) \<noteq> []"
    by (auto simp: would_create_def matches_def filter_empty_conv)
  with False show ?thesis
    by (simp add: follows_after_follow [OF assms] rel_count_def)
qed

lemma no_second_creation:
  assumes "registered e (model x)"
    and "(ao' = ao \<and> em' = em) \<or> unique_together e"
  shows "\<not> would_create e u x ao' em' (follows (snd (follow e u x sa ao em s)))"
proof -
  let ?tbl = "follows (snd (follow e u x sa ao em s))"
  from rel_count_after_follow [OF assms(1)]
  have ne: "filter (follows_of u x) ?tbl \<noteq> []"
    by (auto simp: rel_count_def)
  show ?thesis
  proof (cases "unique_together e")
    case True
    with ne show ?thesis by (simp add: would_create_def)
  next
    case False
    with assms(2) have same: "ao' = ao" "em' = em" by simp_all
    have "filter (matches u x ao em) ?tbl \<noteq> []"
    proof (cases "would_create e u x ao em (follows s)")
      case True
      then show ?thesis
        by (simp add: follows_after_follow [OF assms(1)] would_create_row_matches)
    next
      case nc: False
      with False have "filter (matches u x ao em) (follows s) \<noteq> []"
        by (simp add: would_create_def)
      with nc show ?thesis by (simp add: follows_after_follow [OF assms(1)])
    qed
    with same show ?thesis by (simp add: would_create_def)
  qed
qed

section \<open>\<open>is_following\<close> after \<open>follow\<close> and after \<open>unfollow\<close>\<close>

text \<open>
  Claim C3. For every user and every registered entity, in every store and for all flag
  arguments: \<open>is_following(user, entity)\<close> returns \<open>True\<close> in the store that
  \<open>follow(user, entity)\<close> leaves behind, and returns \<open>False\<close> in the store that
  \<open>unfollow(user, entity)\<close> leaves behind.
\<close>

theorem follow_unfollow_then_is_following:
  assumes "registered e (model x)"
  shows "fst (is_following e u x (snd (follow e u x sa ao em s))) = Inr True \<and>
         fst (is_following e u x (snd (unfollow e u x sa' s))) = Inr False"
proof -
  have "fst (is_following e u x (snd (follow e u x sa ao em s))) = Inr True"
    using assms rel_count_after_follow [OF assms, of u sa ao em s]
    by (simp add: is_following_def rel_count_def)
  moreover have "fst (is_following e u x (snd (unfollow e u x sa' s))) = Inr False"
    using assms by (simp add: is_following_def follows_after_unfollow)
  ultimately show ?thesis by simp
qed

theorem follow_unfollow_then_is_following_witness:
  "registered example_env (model club) \<and>
   fst (is_following example_env alice club
         (snd (follow example_env alice club True True False empty_store))) = Inr True \<and>
   fst (is_following example_env alice club
         (snd (unfollow example_env alice club False
            (snd (follow example_env alice club True True False empty_store))))) = Inr False"
proof -
  have h: "registered example_env (model club)"
    by (simp add: example_env_def club_def)
  from h
    follow_unfollow_then_is_following [OF h, where u = alice and sa = True and ao = True
      and em = False and s = empty_store]
    follow_unfollow_then_is_following [OF h, where u = alice and sa' = False
      and s = "snd (follow example_env alice club True True False empty_store)"]
  show ?thesis by blast
qed

section \<open>The signal of \<open>unfollow\<close>\<close>

text \<open>
  Claim C9. For every user and every registered entity, \<open>unfollow\<close> with
  \<open>send_action=True\<close> sends the "stopped following" signal with the entity as target, in
  every store: whether a matching row existed, and was deleted, or not.
\<close>

theorem unfollow_always_sends:
  assumes "registered e (model x)"
  shows "signals (snd (unfollow e u x True s)) =
           signals s @ [follow_signal u ''stopped following'' x]"
  using assms by (simp add: signals_after_unfollow)

theorem unfollow_always_sends_witness:
  "registered example_env (model club) \<and> rel_count alice club (follows empty_store) = 0 \<and>
   signals (snd (unfollow example_env alice club True empty_store)) =
     signals empty_store @ [follow_signal alice ''stopped following'' club]"
proof -
  have h: "registered example_env (model club)"
    by (simp add: example_env_def club_def)
  have "rel_count alice club (follows empty_store) = 0"
    by (simp add: rel_count_def empty_store_def)
  with h unfollow_always_sends [OF h, where u = alice and s = empty_store] show ?thesis by blast
qed

section \<open>\<open>set_all_email_notifications\<close>\<close>

lemma save_each_find:
  "distinct (map follow_id fs) \<Longrightarrow>
     save_each enable fs tbl =
       map (\<lambda>r. case find (\<lambda>f. follow_id f = follow_id r) fs of
                   None \<Rightarrow> r
                 | Some f \<Rightarrow> f\<lparr>send_email := enable\<rparr>) tbl"
proof (induction fs arbitrary: tbl)
  case Nil
  then show ?case by simp
next
  case (Cons f fs)
  from Cons.prems have d: "distinct (map follow_id fs)" and nf: "follow_id f \<notin> follow_id ` set fs"
    by simp_all
  from nf have none: "find (\<lambda>g. follow_id g = follow_id f) fs = None"
    by (force simp: find_None_iff image_iff)
  show ?case
    by (simp add: Cons.IH [OF d] save_follow_def none cong: map_cong)
qed

lemma find_filter_row:
  assumes "distinct (map follow_id tbl)" and "r \<in> set tbl"
  shows "find (\<lambda>f. follow_id f = follow_id r) (filter P tbl) = (if P r then Some r else None)"
  using assms
proof (induction tbl)
  case Nil
  then show ?case by simp
next
  case (Cons t tbl)
  then show ?case by (auto simp: find_None_iff image_iff)
qed

lemma save_each_filter:
  assumes "distinct (map follow_id tbl)"
  shows "save_each enable (filter P tbl) tbl =
           map (\<lambda>r. if P r then r\<lparr>send_email := enable\<rparr> else r) tbl"
proof -
  have "distinct (map follow_id (filter P tbl))"
    using assms by (rule distinct_map_filter)
  then have "save_each enable (filter P tbl) tbl =
      map (\<lambda>r. case find (\<lambda>f. follow_id f = follow_id r) (filter P tbl) of
                  None \<Rightarrow> r | Some f \<Rightarrow> f\<lparr>send_email := enable\<rparr>) tbl"
    by (rule save_each_find)
  also have "\<dots> = map (\<lambda>r. if P r then r\<lparr>send_email := enable\<rparr> else r) tbl"
    by (rule map_cong) (simp_all add: find_filter_row [OF assms])
  finally show ?thesis .
qed

lemma follows_set_all_email_notifications:
  assumes "distinct (map follow_id (follows s))"
  shows "follows (set_all_email_notifications u enable s) =
           map (\<lambda>f. if user f = u then f\<lparr>send_email := enable\<rparr> else f) (follows s)"
  by (simp add: set_all_email_notifications_def Let_def save_each_filter [OF assms])

text \<open>
  Claim C6. For every user and boolean value, in a table whose primary keys are distinct
  (the database guarantees it, and every function of the module preserves it, see
  \<open>wf_store_run\<close> below), \<open>set_all_email_notifications(user, value)\<close> leaves the table
  with the same rows at the same places, except that every row owned by the user has
  \<open>send_email\<close> set to the value; a row owned by another user is not changed at all.
\<close>

theorem set_all_email_notifications_rows:
  assumes "distinct (map follow_id (follows s))"
  shows "length (follows (set_all_email_notifications u enable s)) = length (follows s) \<and>
         (\<forall>i < length (follows s).
            (user (follows s ! i) = u \<longrightarrow>
               follows (set_all_email_notifications u enable s) ! i =
                 (follows s ! i)\<lparr>send_email := enable\<rparr>) \<and>
            (user (follows s ! i) \<noteq> u \<longrightarrow>
               follows (set_all_email_notifications u enable s) ! i = follows s ! i))"
  by (simp add: follows_set_all_email_notifications [OF assms])

theorem set_all_email_notifications_rows_witness:
  "distinct (map follow_id (follows example_store)) \<and>
   length (follows example_store) = 3 \<and>
   length (follows (set_all_email_notifications alice True example_store)) =
     length (follows example_store) \<and>
   user (follows example_store ! 0) = alice \<and>
   follows (set_all_email_notifications alice True example_store) ! 0 =
     (follows example_store ! 0)\<lparr>send_email := True\<rparr> \<and>
   user (follows example_store ! 1) \<noteq> alice \<and>
   follows (set_all_email_notifications alice True example_store) ! 1 =
     follows example_store ! 1 \<and>
   user (follows example_store ! 2) = alice \<and>
   follows (set_all_email_notifications alice True example_store) ! 2 =
     (follows example_store ! 2)\<lparr>send_email := True\<rparr>"
proof -
  have h: "distinct (map follow_id (follows example_store))"
    by (simp add: example_store_def)
  have len: "length (follows example_store) = 3"
    by (simp add: example_store_def)
  have owner: "user (follows example_store ! 0) = alice"
    "user (follows example_store ! 1) \<noteq> alice"
    "user (follows example_store ! 2) = alice"
    by (simp_all add: example_store_def alice_def bob_def)
  note rows = set_all_email_notifications_rows [OF h, of alice True]
  from rows have "length (follows (set_all_email_notifications alice True example_store)) =
      length (follows example_store)"
    by (rule conjunct1)
  moreover from rows len owner(1)
  have "follows (set_all_email_notifications alice True example_store) ! 0 =
      (follows example_store ! 0)\<lparr>send_email := True\<rparr>"
    by simp
  moreover from rows len owner(2)
  have "follows (set_all_email_notifications alice True example_store) ! 1 =
      follows example_store ! 1"
    by simp
  moreover from rows len owner(3)
  have "follows (set_all_email_notifications alice True example_store) ! 2 =
      (follows example_store ! 2)\<lparr>send_email := True\<rparr>"
    by simp
  ultimately show ?thesis using h len owner by simp
qed

section \<open>Invariants of the \<open>Follow\<close> table\<close>

lemma next_follow_id_after_follow:
  assumes "registered e (model x)"
  shows "next_follow_id (snd (follow e u x sa ao em s)) =
     (if would_create e u x ao em (follows s)
      then Suc (next_follow_id s) else next_follow_id s)"
proof (cases "would_create e u x ao em (follows s)")
  case True
  then show ?thesis
    by (simp add: follow_created [OF assms True] Let_def action_send_frame)
next
  case False
  then show ?thesis by (simp add: follow_not_created(1) [OF assms False])
qed

lemma wf_store_follow: "wf_store s \<Longrightarrow> wf_store (snd (follow e u x sa ao em s))"
proof (cases "registered e (model x)")
  case False
  assume "wf_store s"
  with False show ?thesis by (simp add: follow_unregistered)
next
  case True
  assume "wf_store s"
  then show ?thesis
    by (auto simp: wf_store_def follows_after_follow [OF True]
          next_follow_id_after_follow [OF True] created_row_def list_all_iff
          intro: less_SucI)
qed

lemma wf_store_unfollow: "wf_store s \<Longrightarrow> wf_store (snd (unfollow e u x sa s))"
  by (cases "registered e (model x)")
     (auto simp: wf_store_def unfollow_unregistered unfollow_def Let_def action_send_frame
        distinct_map_filter list_all_iff)

lemma wf_store_set_all: "wf_store s \<Longrightarrow> wf_store (set_all_email_notifications u enable s)"
proof -
  assume wf: "wf_store s"
  then have d: "distinct (map follow_id (follows s))" by (simp add: wf_store_def)
  have ids: "map follow_id (follows (set_all_email_notifications u enable s)) =
      map follow_id (follows s)"
    by (simp add: follows_set_all_email_notifications [OF d] cong: map_cong)
  have nxt: "next_follow_id (set_all_email_notifications u enable s) = next_follow_id s"
    by (simp add: set_all_email_notifications_def Let_def)
  have "list_all (\<lambda>f. follow_id f < next_follow_id s)
          (follows (set_all_email_notifications u enable s))"
    using wf by (auto simp: wf_store_def follows_set_all_email_notifications [OF d] list_all_iff)
  with d ids nxt show ?thesis by (simp add: wf_store_def)
qed

lemma wf_store_step: "wf_store s \<Longrightarrow> wf_store (step e c s)"
proof (cases c)
  case (Follow u x sa ao em)
  assume "wf_store s"
  with Follow show ?thesis by (simp add: wf_store_follow)
next
  case (SetAllEmailNotifications u enable)
  assume "wf_store s"
  with SetAllEmailNotifications show ?thesis by (simp add: wf_store_set_all)
next
  case (Unfollow u x sa)
  assume "wf_store s"
  with Unfollow show ?thesis by (simp add: wf_store_unfollow)
next
  case (IsFollowing u x)
  assume "wf_store s"
  with IsFollowing show ?thesis by (simp add: is_following_def split: sum.splits)
next
  case (ActionHandler vb kw)
  assume "wf_store s"
  with ActionHandler show ?thesis by (simp add: wf_store_def action_handler_frame)
qed

lemma wf_store_run: "wf_store s \<Longrightarrow> wf_store (run e cs s)"
  by (induction cs arbitrary: s) (simp_all add: wf_store_step)

lemma pair_unique_rel_count: "pair_unique tbl \<Longrightarrow> rel_count u x tbl \<le> 1"
proof (induction tbl)
  case Nil
  then show ?case by (simp add: rel_count_def)
next
  case (Cons f tbl)
  then have IH: "rel_count u x tbl \<le> 1" by (simp add: pair_unique_def)
  show ?case
  proof (cases "follows_of u x f")
    case False
    with IH show ?thesis by (simp add: rel_count_def)
  next
    case True
    have "filter (follows_of u x) tbl = []"
    proof (rule ccontr)
      assume "filter (follows_of u x) tbl \<noteq> []"
      then obtain g where "g \<in> set tbl" "follows_of u x g"
        by (auto simp: filter_empty_conv)
      with True have "(user f, content_type f, object_id f) =
          (user g, content_type g, object_id g)"
        by (simp add: follows_of_def)
      with \<open>g \<in> set tbl\<close> have "(user f, content_type f, object_id f) \<in>
          (\<lambda>f. (user f, content_type f, object_id f)) ` set tbl"
        by (metis (mono_tags, lifting) image_eqI)
      with Cons.prems show False by (simp add: pair_unique_def)
    qed
    with True show ?thesis by (simp add: rel_count_def)
  qed
qed

lemma pair_unique_follow:
  assumes "unique_together e" and "pair_unique (follows s)"
  shows "pair_unique (follows (snd (follow e u x sa ao em s)))"
proof (cases "registered e (model x)")
  case False
  with assms(2) show ?thesis by (simp add: follow_unregistered)
next
  case True
  show ?thesis
  proof (cases "would_create e u x ao em (follows s)")
    case False
    with assms(2) show ?thesis by (simp add: follows_after_follow [OF True])
  next
    case wc: True
    with assms(1) have "filter (follows_of u x) (follows s) = []"
      by (simp add: would_create_def)
    then have "(u, model x, pk x) \<notin> (\<lambda>f. (user f, content_type f, object_id f)) ` set (follows s)"
      by (auto simp: filter_empty_conv follows_of_def)
    with assms(2) wc show ?thesis
      by (simp add: follows_after_follow [OF True] pair_unique_def created_row_def)
  qed
qed

lemma pair_unique_step:
  assumes "unique_together e" and "wf_store s" and "pair_unique (follows s)"
  shows "pair_unique (follows (step e c s))"
proof (cases c)
  case (Follow u x sa ao em)
  with assms show ?thesis by (simp add: pair_unique_follow)
next
  case (SetAllEmailNotifications u enable)
  from assms(2) have d: "distinct (map follow_id (follows s))" by (simp add: wf_store_def)
  have "map (\<lambda>f. (user f, content_type f, object_id f))
          (follows (set_all_email_notifications u enable s)) =
        map (\<lambda>f. (user f, content_type f, object_id f)) (follows s)"
    by (simp add: follows_set_all_email_notifications [OF d] cong: map_cong)
  with assms(3) SetAllEmailNotifications show ?thesis by (simp add: pair_unique_def)
next
  case (Unfollow u x sa)
  with assms(3) show ?thesis
    by (cases "registered e (model x)")
       (simp_all add: unfollow_unregistered follows_after_unfollow pair_unique_def
          distinct_map_filter)
next
  case (IsFollowing u x)
  with assms(3) show ?thesis by (simp add: is_following_def split: sum.splits)
next
  case (ActionHandler vb kw)
  with assms(3) show ?thesis by (simp add: action_handler_frame)
qed

lemma pair_unique_run:
  assumes "unique_together e"
  shows "wf_store s \<Longrightarrow> pair_unique (follows s) \<Longrightarrow> pair_unique (follows (run e cs s))"
  by (induction cs arbitrary: s) (simp_all add: wf_store_step pair_unique_step [OF assms])

section \<open>Following twice: relationships and signals\<close>

lemma first_follow_creates:
  "rel_count u x tbl = 0 \<Longrightarrow> would_create e u x ao em tbl"
  by (auto simp: rel_count_def would_create_def matches_def filter_empty_conv)

text \<open>
  Claim C1. On a \<open>Follow\<close> table that is unique on (user, content type, object id), which
  is how the store keeps the invariant of the data model, "at most one relationship per
  (user, target entity) pair": for every user and every registered entity, calling
  \<open>follow\<close> twice, with any flag arguments in either call, leaves exactly one row for the
  pair (a second call whose flags differ finds no row by its lookup, is refused the
  insertion and raises \<open>IntegrityError\<close>); and after any sequence of calls of the functions
  of the module there is at most one row for every pair.
\<close>

theorem follow_twice_one_relationship:
  "(unique_together e \<and> registered e (model x) \<and> pair_unique (follows s) \<longrightarrow>
      rel_count u x
        (follows (snd (follow e u x sa' ao' em' (snd (follow e u x sa ao em s))))) = 1) \<and>
   (unique_together e \<and> wf_store s \<and> pair_unique (follows s) \<longrightarrow>
      rel_count u x (follows (run e cs s)) \<le> 1)"
proof (intro conjI impI)
  assume "unique_together e \<and> registered e (model x) \<and> pair_unique (follows s)"
  then have uq: "unique_together e" and r: "registered e (model x)"
    and pu: "pair_unique (follows s)"
    by simp_all
  let ?s1 = "snd (follow e u x sa ao em s)"
  let ?s2 = "snd (follow e u x sa' ao' em' ?s1)"
  have "pair_unique (follows ?s1)"
    using uq pu by (rule pair_unique_follow)
  with uq have "pair_unique (follows ?s2)"
    by (rule pair_unique_follow)
  then have "rel_count u x (follows ?s2) \<le> 1"
    by (rule pair_unique_rel_count)
  moreover have "0 < rel_count u x (follows ?s2)"
    using r by (rule rel_count_after_follow)
  ultimately show "rel_count u x (follows ?s2) = 1"
    by simp
next
  assume "unique_together e \<and> wf_store s \<and> pair_unique (follows s)"
  then have "pair_unique (follows (run e cs s))"
    by (simp add: pair_unique_run)
  then show "rel_count u x (follows (run e cs s)) \<le> 1"
    by (rule pair_unique_rel_count)
qed

theorem follow_twice_one_relationship_witness:
  "unique_together strict_env \<and> registered strict_env (model club) \<and>
   wf_store empty_store \<and> pair_unique (follows empty_store) \<and>
   rel_count alice club
     (follows (snd (follow strict_env alice club True False True
        (snd (follow strict_env alice club True True False empty_store))))) = 1 \<and>
   rel_count alice club (follows (run strict_env example_calls empty_store)) \<le> 1"
proof -
  have h1: "unique_together strict_env"
    by (simp add: strict_env_def)
  have h2: "registered strict_env (model club)"
    by (simp add: strict_env_def example_env_def club_def)
  have h3: "wf_store empty_store" "pair_unique (follows empty_store)"
    by (simp_all add: wf_store_def pair_unique_def empty_store_def)
  note inst = follow_twice_one_relationship [where e = strict_env and u = alice and x = club
      and s = empty_store and sa = True and ao = True and em = False
      and sa' = True and ao' = False and em' = True and cs = example_calls]
  from inst h1 h2 h3 have "rel_count alice club
     (follows (snd (follow strict_env alice club True False True
        (snd (follow strict_env alice club True True False empty_store))))) = 1"
    by simp
  moreover from inst h1 h3
  have "rel_count alice club (follows (run strict_env example_calls empty_store)) \<le> 1"
    by simp
  ultimately show ?thesis using h1 h2 h3 by simp
qed

text \<open>
  Claim C4. For every user and every registered entity: a \<open>follow\<close> call with
  \<open>send_action=True\<close> for a pair without relationship, which creates the first one, sends
  exactly one signal, "started following" with the entity as target; and, on a \<open>Follow\<close>
  table that is unique on (user, content type, object id), a repeated \<open>follow\<close> call for
  the same pair sends no signal, whatever the flag arguments of the two calls.
\<close>

theorem follow_signal_once:
  "(registered e (model x) \<and> rel_count u x (follows s) = 0 \<longrightarrow>
      signals (snd (follow e u x True ao em s)) =
        signals s @ [follow_signal u ''started following'' x]) \<and>
   (unique_together e \<and> registered e (model x) \<longrightarrow>
      signals (snd (follow e u x sa' ao' em' (snd (follow e u x sa ao em s)))) =
        signals (snd (follow e u x sa ao em s)))"
proof (intro conjI impI)
  assume "registered e (model x) \<and> rel_count u x (follows s) = 0"
  then show "signals (snd (follow e u x True ao em s)) =
      signals s @ [follow_signal u ''started following'' x]"
    by (simp add: signals_after_follow first_follow_creates)
next
  assume "unique_together e \<and> registered e (model x)"
  then have r: "registered e (model x)" and c: "(ao' = ao \<and> em' = em) \<or> unique_together e"
    by simp_all
  show "signals (snd (follow e u x sa' ao' em' (snd (follow e u x sa ao em s)))) =
      signals (snd (follow e u x sa ao em s))"
    using no_second_creation [OF r c, of u sa s] by (simp add: signals_after_follow [OF r])
qed

theorem follow_signal_once_witness:
  "unique_together strict_env \<and> registered strict_env (model club) \<and>
   rel_count alice club (follows empty_store) = 0 \<and>
   signals (snd (follow strict_env alice club True True False empty_store)) =
     signals empty_store @ [follow_signal alice ''started following'' club] \<and>
   signals (snd (follow strict_env alice club True False True
      (snd (follow strict_env alice club True True False empty_store)))) =
     signals (snd (follow strict_env alice club True True False empty_store))"
proof -
  have h1: "unique_together strict_env"
    by (simp add: strict_env_def)
  have h2: "registered strict_env (model club)"
    by (simp add: strict_env_def example_env_def club_def)
  have h3: "rel_count alice club (follows empty_store) = 0"
    by (simp add: rel_count_def empty_store_def)
  from h1 h2 h3
    follow_signal_once [where e = strict_env and u = alice and x = club
      and s = empty_store and ao = True and em = False and ao' = False and em' = True
      and sa = True and sa' = True]
  show ?thesis by simp
qed

section \<open>When \<open>UnregisteredEntityError\<close> is raised\<close>

lemma unrecognized_drop_key:
  "key \<noteq> opt \<Longrightarrow> unrecognized e (drop_key opt kw) key = unrecognized e kw key"
  by (simp add: unrecognized_def supplied_def map_of_drop_key)

lemma unrecognized_drop_keys:
  "key \<notin> set ks \<Longrightarrow> unrecognized e (drop_keys ks kw) key = unrecognized e kw key"
  by (simp add: unrecognized_def supplied_def map_of_drop_keys)

lemma set_references_head:
  "set_references e (opt # opts) kw a =
     (if unrecognized e kw opt then Inl UnregisteredEntityError
      else set_references e opts (drop_key opt kw)
             (case supplied kw opt of Some (PObj x) \<Rightarrow> setattr_reference opt x a | _ \<Rightarrow> a))"
  by (auto simp: pop_eq unrecognized_def supplied_def
        split: option.splits pyval.splits sum.splits)

lemma set_references_fails_iff:
  "distinct opts \<Longrightarrow>
     (\<exists>err. set_references e opts kw a = Inl err) \<longleftrightarrow>
     (\<exists>opt\<in>set opts. unrecognized e kw opt)"
proof (induction opts arbitrary: kw a)
  case Nil
  then show ?case by simp
next
  case (Cons opt opts)
  then have d: "distinct opts" and n: "opt \<notin> set opts" by simp_all
  have same: "(\<exists>o'\<in>set opts. unrecognized e (drop_key opt kw) o') \<longleftrightarrow>
              (\<exists>o'\<in>set opts. unrecognized e kw o')"
    using n by (metis unrecognized_drop_key)
  show ?case
    unfolding set_references_head
    by (simp add: Cons.IH [OF d] same del: set_references.simps)
qed

lemma action_handler_raises_iff:
  assumes "map_of kw ''sender'' = Some (PObj a)"
  shows "fst (action_handler e vb kw s) = Inl UnregisteredEntityError \<longleftrightarrow>
     \<not> registered e (model a) \<or> unrecognized e kw ''target'' \<or>
     unrecognized e kw ''action_object''"
proof (cases "registered e (model a)")
  case False
  then have "check_actionable_model e (PObj a) = Inl UnregisteredEntityError" by simp
  from action_handler_unrecognized [OF assms this] False show ?thesis by simp
next
  case True
  let ?kw5 = "drop_keys [''signal'', ''sender'', ''public'', ''description'', ''timestamp''] kw"
  let ?new = "Action (model a) (pk a) (unicode e vb)
                (truthy (get_default kw ''public'' (PBool True)))
                (get_default kw ''description'' PNone)
                (get_default kw ''timestamp'' (PInt (now e)))"
  have iff: "(\<exists>err. set_references e [''target'', ''action_object''] ?kw5 ?new = Inl err) \<longleftrightarrow>
      (\<exists>opt\<in>set [''target'', ''action_object'']. unrecognized e ?kw5 opt)"
    by (rule set_references_fails_iff) simp
  have u: "unrecognized e ?kw5 ''target'' = unrecognized e kw ''target''"
      "unrecognized e ?kw5 ''action_object'' = unrecognized e kw ''action_object''"
    by (simp_all add: unrecognized_drop_keys)
  show ?thesis
  proof (cases "set_references e [''target'', ''action_object''] ?kw5 ?new")
    case (Inl err)
    then have "err = UnregisteredEntityError" by (rule set_references_Inl)
    with Inl iff u True show ?thesis
      unfolding action_handler_recognized [OF assms True] by simp
  next
    case (Inr r)
    with iff u True show ?thesis
      unfolding action_handler_recognized [OF assms True] by (simp split: prod.splits)
  qed
qed

lemma is_following_raises_iff:
  "(fst (is_following e u x s) = Inl UnregisteredEntityError \<longleftrightarrow> \<not> registered e (model x)) \<and>
   snd (is_following e u x s) = s"
  by (simp add: is_following_def)

text \<open>
  \<open>follow\<close> with a registered entity and \<open>send_action=True\<close> creates the row and then sends
  the signal with the user as sender. The subscriber \<open>action_handler\<close> checks the sender:
  where the model of the user is not registered it raises, after the row was created.
\<close>

theorem raise_after_create_counterexample:
  "registered groups_only_env (model club) \<and>
   fst (follow groups_only_env alice club True True False empty_store) =
     Inl UnregisteredEntityError \<and>
   follows empty_store = [] \<and>
   follows (snd (follow groups_only_env alice club True True False empty_store)) =
     [\<lparr>follow_id = 1, user = alice, object_id = 7, content_type = ''group'',
       actor_only = True, send_email = False\<rparr>]"
proof -
  have r: "registered groups_only_env (model club)"
    by (simp add: groups_only_env_def club_def)
  have nr: "\<not> registered groups_only_env (model alice)"
    by (simp add: groups_only_env_def alice_def)
  have wc: "would_create groups_only_env alice club True False (follows empty_store)"
    by (simp add: would_create_def empty_store_def)
  from r nr wc follow_raises_iff [OF r, of alice True True False empty_store]
  have "fst (follow groups_only_env alice club True True False empty_store) =
      Inl UnregisteredEntityError"
    by simp
  moreover from wc follows_after_follow [OF r, of alice True True False empty_store]
  have "follows (snd (follow groups_only_env alice club True True False empty_store)) =
      follows empty_store @ [created_row alice club True False empty_store]"
    by simp
  ultimately show ?thesis
    using r by (simp add: created_row_def empty_store_def club_def)
qed

text \<open>
  Claim C2, amended. \<open>is_following\<close> raises \<open>UnregisteredEntityError\<close> if and only if the
  model of the followed entity is not registered, and never changes the store.
  \<open>action_handler\<close>, called with an instance as actor, raises it if and only if the model
  of the actor is not registered or a supplied target or action object is not recognized,
  and leaves the store unchanged when it raises. \<open>follow\<close> and \<open>unfollow\<close> raise it with the
  store unchanged when the model of the followed entity is not registered; for a
  registered entity they raise it exactly when they send the signal (\<open>follow\<close>:
  \<open>send_action\<close> and a row was created; \<open>unfollow\<close>: \<open>send_action\<close>) and the model of the
  user, the actor of the signal, is not registered.
\<close>

theorem unregistered_entity_error:
  "((fst (is_following e u x s) = Inl UnregisteredEntityError \<longleftrightarrow> \<not> registered e (model x)) \<and>
    snd (is_following e u x s) = s) \<and>
   (map_of kw ''sender'' = Some (PObj a) \<longrightarrow>
      (fst (action_handler e vb kw s) = Inl UnregisteredEntityError \<longleftrightarrow>
         \<not> registered e (model a) \<or> unrecognized e kw ''target'' \<or>
         unrecognized e kw ''action_object'')) \<and>
   (fst (action_handler e vb kw s) = Inl UnregisteredEntityError \<longrightarrow>
      snd (action_handler e vb kw s) = s) \<and>
   (\<not> registered e (model x) \<longrightarrow>
      follow e u x sa ao em s = (Inl UnregisteredEntityError, s) \<and>
      unfollow e u x sa s = (Inl UnregisteredEntityError, s)) \<and>
   (registered e (model x) \<longrightarrow>
      (fst (follow e u x sa ao em s) = Inl UnregisteredEntityError \<longleftrightarrow>
         sa \<and> would_create e u x ao em (follows s) \<and> \<not> registered e (model u)) \<and>
      (fst (unfollow e u x sa s) = Inl UnregisteredEntityError \<longleftrightarrow>
         sa \<and> \<not> registered e (model u)))"
proof (intro conjI impI)
  show "fst (is_following e u x s) = Inl UnregisteredEntityError \<longleftrightarrow>
      \<not> registered e (model x)"
    by (simp add: is_following_def)
  show "snd (is_following e u x s) = s"
    by (simp add: is_following_def)
next
  assume "map_of kw ''sender'' = Some (PObj a)"
  then show "fst (action_handler e vb kw s) = Inl UnregisteredEntityError \<longleftrightarrow>
      \<not> registered e (model a) \<or> unrecognized e kw ''target'' \<or>
      unrecognized e kw ''action_object''"
    by (rule action_handler_raises_iff)
next
  assume "fst (action_handler e vb kw s) = Inl UnregisteredEntityError"
  then show "snd (action_handler e vb kw s) = s"
    by (rule action_handler_error_unchanged)
next
  assume "\<not> registered e (model x)"
  then show "follow e u x sa ao em s = (Inl UnregisteredEntityError, s)"
    by (rule follow_unregistered)
next
  assume "\<not> registered e (model x)"
  then show "unfollow e u x sa s = (Inl UnregisteredEntityError, s)"
    by (rule unfollow_unregistered)
next
  assume "registered e (model x)"
  then show "fst (follow e u x sa ao em s) = Inl UnregisteredEntityError \<longleftrightarrow>
      sa \<and> would_create e u x ao em (follows s) \<and> \<not> registered e (model u)"
    by (rule follow_raises_iff)
next
  assume "registered e (model x)"
  then show "fst (unfollow e u x sa s) = Inl UnregisteredEntityError \<longleftrightarrow>
      sa \<and> \<not> registered e (model u)"
    by (rule unfollow_raises_iff)
qed

theorem unregistered_entity_error_witness:
  "map_of example_kwargs ''sender'' = Some (PObj alice) \<and>
   \<not> registered groups_only_env (model alice) \<and>
   registered groups_only_env (model club) \<and>
   fst (is_following groups_only_env bob alice empty_store) = Inl UnregisteredEntityError \<and>
   snd (is_following groups_only_env bob alice empty_store) = empty_store \<and>
   fst (action_handler groups_only_env (Plain ''joined'') example_kwargs empty_store) =
     Inl UnregisteredEntityError \<and>
   snd (action_handler groups_only_env (Plain ''joined'') example_kwargs empty_store) =
     empty_store \<and>
   follow groups_only_env bob alice True True False empty_store =
     (Inl UnregisteredEntityError, empty_store) \<and>
   unfollow groups_only_env bob alice True empty_store =
     (Inl UnregisteredEntityError, empty_store) \<and>
   fst (follow groups_only_env alice club True True False empty_store) =
     Inl UnregisteredEntityError \<and>
   fst (unfollow groups_only_env alice club True empty_store) = Inl UnregisteredEntityError"
proof -
  have h1: "map_of example_kwargs ''sender'' = Some (PObj alice)"
    by (simp add: example_kwargs_def)
  have h2: "\<not> registered groups_only_env (model alice)"
    by (simp add: groups_only_env_def alice_def)
  have h3: "registered groups_only_env (model club)"
    by (simp add: groups_only_env_def club_def)
  have wc: "would_create groups_only_env alice club True False (follows empty_store)"
    by (simp add: would_create_def empty_store_def)
  note a = unregistered_entity_error [where e = groups_only_env and u = bob and x = alice
      and s = empty_store and kw = example_kwargs and a = alice and vb = "Plain ''joined''"
      and sa = True and ao = True and em = False]
  note b = unregistered_entity_error [where e = groups_only_env and u = alice and x = club
      and s = empty_store and kw = example_kwargs and a = alice and vb = "Plain ''joined''"
      and sa = True and ao = True and em = False]
  from a h1 h2 have raise:
    "fst (action_handler groups_only_env (Plain ''joined'') example_kwargs empty_store) =
       Inl UnregisteredEntityError"
    by simp
  from a raise have
    "snd (action_handler groups_only_env (Plain ''joined'') example_kwargs empty_store) =
       empty_store"
    by simp
  moreover from a h2 have
    "fst (is_following groups_only_env bob alice empty_store) = Inl UnregisteredEntityError"
    "snd (is_following groups_only_env bob alice empty_store) = empty_store"
    "follow groups_only_env bob alice True True False empty_store =
       (Inl UnregisteredEntityError, empty_store)"
    "unfollow groups_only_env bob alice True empty_store =
       (Inl UnregisteredEntityError, empty_store)"
    by simp_all
  moreover from b h2 h3 wc have
    "fst (follow groups_only_env alice club True True False empty_store) =
       Inl UnregisteredEntityError"
    "fst (unfollow groups_only_env alice club True empty_store) = Inl UnregisteredEntityError"
    by simp_all
  ultimately show ?thesis using h1 h2 h3 raise by simp
qed

section \<open>\<open>send_email_notifications\<close>\<close>

lemma set_action_followers: "set (action_followers s a) = {u. follows_actor s a u}"
  by (auto simp: action_followers_def follows_actor_def list_ex_iff)

lemma email_batch_of_eq:
  "email_batch_of e s a =
     map (notification e a) (filter (email_notification e) (action_followers s a))"
  by (simp add: email_batch_of_def notification_def Let_def)

text \<open>
  Claim C7. For every action, \<open>send_email_notifications\<close> hands one batch to
  \<open>send_mass_mail\<close>. The batch holds exactly one message for each user who follows the
  actor of the action and whose profile has \<open>email_notification\<close> set, and no other
  message. Each message has the subject rendered from the subject template (with the
  trailing white space stripped) and the body rendered from the body template, both with
  the action as context, the from address of the settings, and the address of the user
  as its only recipient.
\<close>

theorem send_email_notifications_recipients:
  "\<exists>rcpts. distinct rcpts \<and>
           set rcpts = {u. follows_actor s a u \<and> email_notification e u} \<and>
           outbox (send_email_notifications e a s) =
             outbox s @ [map (notification e a) rcpts]"
proof -
  let ?rcpts = "filter (email_notification e) (action_followers s a)"
  have "distinct ?rcpts"
    by (simp add: action_followers_def)
  moreover have "set ?rcpts = {u. follows_actor s a u \<and> email_notification e u}"
    by (auto simp: set_action_followers)
  moreover have "outbox (send_email_notifications e a s) =
      outbox s @ [map (notification e a) ?rcpts]"
    by (simp add: send_email_notifications_simps email_batch_of_eq)
  ultimately show ?thesis by blast
qed

theorem send_email_notifications_recipients_witness:
  "follows_actor example_store example_action alice \<and> email_notification example_env alice \<and>
   follows_actor example_store example_action bob \<and> \<not> email_notification example_env bob \<and>
   (\<exists>rcpts. distinct rcpts \<and>
           set rcpts = {u. follows_actor example_store example_action u \<and>
                           email_notification example_env u} \<and>
           outbox (send_email_notifications example_env example_action example_store) =
             outbox example_store @ [map (notification example_env example_action) rcpts]) \<and>
   outbox (send_email_notifications example_env example_action example_store) =
     [(''email_notification/message_subject.txt posted'',
       ''email_notification/message_body.txt posted'' @ [CHR 0x0A],
       PStr ''noreply@example.com'', [''user+@example.com''])] # []"
proof -
  have "follows_actor example_store example_action alice"
    "follows_actor example_store example_action bob"
    by (simp_all add: follows_actor_def example_store_def example_action_def Action_def)
  moreover have "email_notification example_env alice" "\<not> email_notification example_env bob"
    by (simp_all add: example_env_def alice_def bob_def)
  moreover have "outbox (send_email_notifications example_env example_action example_store) =
     [(''email_notification/message_subject.txt posted'',
       ''email_notification/message_body.txt posted'' @ [CHR 0x0A],
       PStr ''noreply@example.com'', [''user+@example.com''])] # []"
    by (simp add: send_email_notifications_simps email_batch_of_def action_followers_def
          example_store_def example_action_def Action_def example_env_def alice_def bob_def
          rstrip_def isspace_def)
  ultimately show ?thesis
    using send_email_notifications_recipients [of example_store example_action example_env]
    by blast
qed

end
